theory Spec2Isabelle
  imports Complex_Main
begin

section \<open>Character relations: a model of \<^verbatim>\<open>character_relations.py\<close>\<close>

subsection \<open>Errors and floating-point values\<close>

text \<open>
  The exceptions the modelled functions can raise. \<^verbatim>\<open>ValueError\<close> comes from the
  libraries (the vectorizer refusing its vocabulary, \<^verbatim>\<open>np.max\<close> on an array without
  elements), \<^verbatim>\<open>IndexError\<close> from indexing a list or an array out of range, and
  \<^verbatim>\<open>UnboundLocalError\<close> from reading a local variable that no branch assigned.
\<close>

datatype error = ValueError | IndexError | UnboundLocalError

text \<open>
  A \<^verbatim>\<open>float64\<close> is modelled by its value: a finite number is a real, and the three
  special values are kept, because numpy produces them instead of raising: a division
  by zero and a logarithm of a number that is not positive only emit a warning. The
  arithmetic of the matrices and of the edges is exact (its rounding and overflow are
  left out). The one product whose rounding decides what a function returns, the
  threshold of the name aggregator, is rounded explicitly.
\<close>

datatype npfloat = Fin real | PInf | NInf | NaN

fun fadd :: "npfloat \<Rightarrow> npfloat \<Rightarrow> npfloat" where
  "fadd NaN _ = NaN"
| "fadd _ NaN = NaN"
| "fadd (Fin a) (Fin b) = Fin (a + b)"
| "fadd PInf NInf = NaN"
| "fadd NInf PInf = NaN"
| "fadd PInf _ = PInf"
| "fadd _ PInf = PInf"
| "fadd NInf _ = NInf"
| "fadd _ NInf = NInf"

fun fneg :: "npfloat \<Rightarrow> npfloat" where
  "fneg (Fin a) = Fin (- a)"
| "fneg PInf = NInf"
| "fneg NInf = PInf"
| "fneg NaN = NaN"

fun inf_times :: "real \<Rightarrow> npfloat" where
  \<comment> \<open>plus infinity times a finite number\<close>
  "inf_times a = (if a = 0 then NaN else if 0 < a then PInf else NInf)"

fun fmul :: "npfloat \<Rightarrow> npfloat \<Rightarrow> npfloat" where
  "fmul NaN _ = NaN"
| "fmul _ NaN = NaN"
| "fmul (Fin a) (Fin b) = Fin (a * b)"
| "fmul (Fin a) PInf = inf_times a"
| "fmul (Fin a) NInf = fneg (inf_times a)"
| "fmul PInf (Fin b) = inf_times b"
| "fmul NInf (Fin b) = fneg (inf_times b)"
| "fmul PInf PInf = PInf"
| "fmul NInf NInf = PInf"
| "fmul PInf NInf = NInf"
| "fmul NInf PInf = NInf"

fun fdiv :: "npfloat \<Rightarrow> npfloat \<Rightarrow> npfloat" where
  "fdiv NaN _ = NaN"
| "fdiv _ NaN = NaN"
| "fdiv (Fin a) (Fin b) = (if b = 0 then inf_times a else Fin (a / b))"
| "fdiv (Fin a) _ = Fin 0"
| "fdiv PInf (Fin b) = (if 0 \<le> b then PInf else NInf)"
| "fdiv NInf (Fin b) = (if 0 \<le> b then NInf else PInf)"
| "fdiv _ _ = NaN"

fun fabs :: "npfloat \<Rightarrow> npfloat" where
  "fabs (Fin a) = Fin \<bar>a\<bar>"
| "fabs PInf = PInf"
| "fabs NInf = PInf"
| "fabs NaN = NaN"

fun np_log :: "npfloat \<Rightarrow> npfloat" where
  \<comment> \<open>\<^verbatim>\<open>np.log\<close>: minus infinity at zero, not-a-number below it\<close>
  "np_log (Fin a) = (if 0 < a then Fin (ln a) else if a = 0 then NInf else NaN)"
| "np_log PInf = PInf"
| "np_log NInf = NaN"
| "np_log NaN = NaN"

fun fgt :: "npfloat \<Rightarrow> npfloat \<Rightarrow> bool" where
  \<comment> \<open>\<^verbatim>\<open>x > y\<close>: false as soon as one side is not-a-number\<close>
  "fgt NaN _ = False"
| "fgt _ NaN = False"
| "fgt (Fin a) (Fin b) = (b < a)"
| "fgt PInf PInf = False"
| "fgt PInf _ = True"
| "fgt _ PInf = False"
| "fgt NInf _ = False"
| "fgt _ NInf = True"

subsection \<open>The alignment rate\<close>

text \<open>
  \<^verbatim>\<open>calculate_align_rate\<close>. The sentiment scorer (\<^verbatim>\<open>Afinn().score\<close>) is a
  parameter; it returns a finite number for every sentence. \<^verbatim>\<open>np.sum\<close> of the
  scores is a \<^verbatim>\<open>float64\<close>, so the division by the number of non-zero scores is
  numpy's and never raises.
\<close>

definition np_nonzero :: "real list \<Rightarrow> nat list" where
  \<comment> \<open>the indices of the non-zero elements\<close>
  "np_nonzero xs = filter (\<lambda>k. xs ! k \<noteq> 0) [0..<length xs]"

definition calculate_align_rate :: "(string \<Rightarrow> real) \<Rightarrow> string list \<Rightarrow> npfloat" where
  "calculate_align_rate score sentence_list =
     (let sentiment_score = map score sentence_list
      in fmul (fdiv (Fin (sum_list sentiment_score))
                    (Fin (real (length (np_nonzero sentiment_score)))))
              (Fin (- 2)))"

subsection \<open>The name aggregator\<close>

text \<open>
  \<^verbatim>\<open>flatten\<close> works on lists nested to any depth. A value is either a list of values
  or something that is not a list (a name, or whatever else the extractor returned).
\<close>

datatype 'a pyval = Atom 'a | PyList "'a pyval list"

fun flatten :: "'a pyval list \<Rightarrow> 'a list" where
  "flatten [] = []"
| "flatten (PyList ys # rest) = flatten ys @ flatten rest"
| "flatten (Atom a # rest) = a # flatten rest"

text \<open>
  \<^verbatim>\<open>collections.Counter\<close>: a dictionary from the elements to their counts, which keeps
  the order in which the keys were first inserted.
\<close>

fun counter_add :: "'a \<Rightarrow> ('a \<times> nat) list \<Rightarrow> ('a \<times> nat) list" where
  "counter_add x [] = [(x, 1)]"
| "counter_add x ((k, n) # kvs) =
     (if k = x then (k, Suc n) # kvs else (k, n) # counter_add x kvs)"

definition Counter :: "'a list \<Rightarrow> ('a \<times> nat) list" where
  "Counter xs = fold counter_add xs []"

text \<open>
  The threshold \<^verbatim>\<open>threshold_rate * len(sentence_list)\<close> is a product of floats: the
  length is converted exactly (a list has fewer than \<open>2^53\<close> elements) and the exact
  product is rounded to a \<^verbatim>\<open>float64\<close>. The rounding \<open>fl\<close> (to the nearest
  \<^verbatim>\<open>float64\<close>, an infinity on overflow) is a parameter; with a rate that is infinite
  or not a number the product is the special value that multiplication gives.
\<close>

fun float_mul_int :: "(real \<Rightarrow> npfloat) \<Rightarrow> npfloat \<Rightarrow> nat \<Rightarrow> npfloat" where
  "float_mul_int fl (Fin t) n = fl (t * real n)"
| "float_mul_int fl a n = fmul a (Fin (real n))"

text \<open>
  \<^verbatim>\<open>k >= p\<close> for an integer \<open>k\<close> that is not negative and a float \<open>p\<close>: Python
  compares the two values exactly, and every comparison with not-a-number is false.
\<close>

fun int_ge :: "nat \<Rightarrow> npfloat \<Rightarrow> bool" where
  "int_ge k (Fin p) = (p \<le> real k)"
| "int_ge k NInf = True"
| "int_ge k PInf = False"
| "int_ge k NaN = False"

text \<open>
  \<^verbatim>\<open>iterative_NER\<close>. The extractor \<^verbatim>\<open>name_entity_recognition\<close> runs the external
  language model, so it is a parameter. The comprehension walks the keys of the
  counter and reads each key's count.
\<close>

definition iterative_NER ::
  "(real \<Rightarrow> npfloat) \<Rightarrow> (string \<Rightarrow> 'a pyval) \<Rightarrow> string list \<Rightarrow> npfloat \<Rightarrow> 'a list" where
  "iterative_NER fl name_entity_recognition sentence_list threshold_rate =
     (let output = filter (\<lambda>name_list. name_list \<noteq> PyList [])
                     (map name_entity_recognition sentence_list);
          output = flatten output;
          output = Counter output
      in map fst (filter (\<lambda>(x, n). int_ge n (float_mul_int fl threshold_rate
                                                  (length sentence_list)))
                    output))"

subsection \<open>Arrays\<close>

text \<open>
  A two-dimensional array is the list of its rows. A list of rows does not record the
  number of columns of an array without rows, so the operations that need it take it
  as an argument.
\<close>

definition np_T :: "nat \<Rightarrow> 'a list list \<Rightarrow> 'a list list" where
  \<comment> \<open>the transpose of an array with \<open>ncols\<close> columns\<close>
  "np_T ncols a = map (\<lambda>j. map (\<lambda>row. row ! j) a) [0..<ncols]"

definition np_dot :: "nat \<Rightarrow> ('a::semiring_0) list list \<Rightarrow> 'a list list \<Rightarrow> 'a list list" where
  \<comment> \<open>the matrix product; \<open>ncols\<close> is the number of columns of \<open>b\<close>\<close>
  "np_dot ncols a b =
     map (\<lambda>row. map (\<lambda>j. sum_list (map2 (\<lambda>x brow. x * brow ! j) row b)) [0..<ncols]) a"

definition np_tril :: "'a \<Rightarrow> 'a list list \<Rightarrow> 'a list list" where
  \<comment> \<open>the lower triangle: the cells above the diagonal become \<open>zero\<close>\<close>
  "np_tril zero m =
     map (\<lambda>i. map (\<lambda>j. if j \<le> i then m ! i ! j else zero) [0..<length (m ! i)])
       [0..<length m]"

definition np_triu :: "'a \<Rightarrow> 'a list list \<Rightarrow> 'a list list" where
  \<comment> \<open>the upper triangle: the cells below the diagonal become \<open>zero\<close>\<close>
  "np_triu zero m =
     map (\<lambda>i. map (\<lambda>j. if i \<le> j then m ! i ! j else zero) [0..<length (m ! i)])
       [0..<length m]"

definition np_ones :: "nat \<Rightarrow> nat \<Rightarrow> real list list" where
  "np_ones r c = replicate r (replicate c 1)"

definition np_where_zero :: "real list list \<Rightarrow> (nat \<times> nat) list" where
  \<comment> \<open>\<^verbatim>\<open>zip(*np.where(m == 0))\<close>: the positions of the zero cells, row by row\<close>
  "np_where_zero m =
     concat (map (\<lambda>i. map (\<lambda>j. (i, j)) (filter (\<lambda>j. m ! i ! j = 0) [0..<length (m ! i)]))
       [0..<length m])"

definition zero_diagonal :: "'a \<Rightarrow> nat \<Rightarrow> 'a list list \<Rightarrow> 'a list list" where
  \<comment> \<open>\<^verbatim>\<open>m[[range(shape)], [range(shape)]] = 0\<close>: one write for each cell of the diagonal\<close>
  "zero_diagonal zero shape m = fold (\<lambda>k a. a[k := (a ! k)[k := zero]]) [0..<shape] m"

fun fmax :: "npfloat \<Rightarrow> npfloat \<Rightarrow> npfloat" where
  \<comment> \<open>the maximum of two numbers; not-a-number wins\<close>
  "fmax NaN _ = NaN"
| "fmax _ NaN = NaN"
| "fmax a b = (if fgt b a then b else a)"

definition np_max :: "npfloat list list \<Rightarrow> error + npfloat" where
  \<comment> \<open>\<^verbatim>\<open>np.max\<close> raises on an array without elements\<close>
  "np_max m = (case concat m of [] \<Rightarrow> Inl ValueError | x # xs \<Rightarrow> Inr (fold (\<lambda>y acc. fmax acc y) xs x))"

definition elementwise :: "('a \<Rightarrow> 'b) \<Rightarrow> 'a list list \<Rightarrow> 'b list list" where
  "elementwise f m = map (map f) m"

definition item :: "'a list \<Rightarrow> nat \<Rightarrow> error + 'a" where
  \<comment> \<open>\<^verbatim>\<open>xs[k]\<close> for an index that is not negative\<close>
  "item xs k = (if k < length xs then Inr (xs ! k) else Inl IndexError)"

definition cell :: "'a list list \<Rightarrow> nat \<times> nat \<Rightarrow> error + 'a" where
  \<comment> \<open>\<^verbatim>\<open>m[i]\<close> for a pair of indices\<close>
  "cell m i =
     (if fst i < length m \<and> snd i < length (m ! fst i) then Inr (m ! fst i ! snd i)
      else Inl IndexError)"

definition local_var :: "'a option \<Rightarrow> error + 'a" where
  \<comment> \<open>reading a local variable that may not have been assigned\<close>
  "local_var v = (case v of None \<Rightarrow> Inl UnboundLocalError | Some x \<Rightarrow> Inr x)"

subsection \<open>The matrix builder\<close>

text \<open>
  \<^verbatim>\<open>CountVectorizer(vocabulary=name_list, binary=True).fit_transform(docs).toarray()\<close>.
  The analyzer (lower-casing and tokenisation) is a parameter. The vectorizer refuses
  a vocabulary that is empty or repeats a term; otherwise each document gives one row,
  with a one in the column of every term among the document's tokens.
\<close>

definition presence_vector :: "(string \<Rightarrow> string list) \<Rightarrow> string list \<Rightarrow> string \<Rightarrow> int list" where
  "presence_vector analyze vocabulary doc =
     map (\<lambda>term. if term \<in> set (analyze doc) then 1 else 0) vocabulary"

definition fit_transform ::
  "(string \<Rightarrow> string list) \<Rightarrow> string list \<Rightarrow> string list \<Rightarrow> error + int list list" where
  "fit_transform analyze vocabulary raw_documents =
     (if \<not> distinct vocabulary \<or> vocabulary = [] then Inl ValueError
      else Inr (map (presence_vector analyze vocabulary) raw_documents))"

definition calculate_matrix ::
  "(string \<Rightarrow> string list) \<Rightarrow> (string \<Rightarrow> real) \<Rightarrow> string list \<Rightarrow> string list \<Rightarrow> npfloat
     \<Rightarrow> error + (int list list \<times> npfloat list list)" where
  "calculate_matrix analyze score name_list sentence_list align_rate =
     (let sentiment_score = map score sentence_list
      in case fit_transform analyze name_list sentence_list of
           Inl e \<Rightarrow> Inl e
         | Inr occurrence_each_sentence \<Rightarrow>
             let k = length name_list;
                 n = length sentence_list;
                 occurrence_T = np_T k occurrence_each_sentence;
                 cooccurrence_matrix = np_dot k occurrence_T occurrence_each_sentence;
                 sentiment_matrix =
                   np_dot k (elementwise real_of_int occurrence_T)
                     (np_T n (map (\<lambda>row. map2 (\<lambda>p s. real_of_int p * s) row sentiment_score)
                                occurrence_T));
                 sentiment_matrix =
                   map2 (map2 (\<lambda>s c. fadd (Fin s) (fmul align_rate (Fin (real_of_int c)))))
                     sentiment_matrix cooccurrence_matrix;
                 cooccurrence_matrix = np_tril 0 cooccurrence_matrix;
                 sentiment_matrix = np_tril (Fin 0) sentiment_matrix;
                 shape = length cooccurrence_matrix
             in Inr (zero_diagonal 0 shape cooccurrence_matrix,
                     zero_diagonal (Fin 0) shape sentiment_matrix))"

subsection \<open>The edge projector\<close>

text \<open>An edge: the two names, the weight and the color.\<close>

type_synonym edge = "string \<times> string \<times> npfloat \<times> npfloat"

text \<open>
  The loop of \<^verbatim>\<open>matrix_to_edge_list\<close>. \<^verbatim>\<open>weight\<close> and \<^verbatim>\<open>color\<close> are assigned only
  under the three known modes. The test \<^verbatim>\<open>mode != 'bare' or weight[i] > 0.0001\<close> reads
  the weight only in bare mode; the tuple is then built from left to right.
\<close>

fun edge_loop ::
  "string \<Rightarrow> string list \<Rightarrow> npfloat list list option \<Rightarrow> npfloat list list option
     \<Rightarrow> (nat \<times> nat) list \<Rightarrow> edge list \<Rightarrow> error + edge list" where
  "edge_loop mode name_list weight color [] edge_list = Inr edge_list"
| "edge_loop mode name_list weight color (i # rest) edge_list =
     (case (if mode \<noteq> ''bare'' then Inr True
            else case local_var weight of
                   Inl e \<Rightarrow> Inl e
                 | Inr w \<Rightarrow> (case cell w i of
                               Inl e \<Rightarrow> Inl e
                             | Inr x \<Rightarrow> Inr (fgt x (Fin (1 / 10000))))) of
        Inl e \<Rightarrow> Inl e
      | Inr False \<Rightarrow> edge_loop mode name_list weight color rest edge_list
      | Inr True \<Rightarrow>
          (case item name_list (fst i) of Inl e \<Rightarrow> Inl e | Inr name_a \<Rightarrow>
           case item name_list (snd i) of Inl e \<Rightarrow> Inl e | Inr name_b \<Rightarrow>
           case local_var weight of Inl e \<Rightarrow> Inl e | Inr w \<Rightarrow>
           case cell w i of Inl e \<Rightarrow> Inl e | Inr wi \<Rightarrow>
           case local_var color of Inl e \<Rightarrow> Inl e | Inr c \<Rightarrow>
           case cell c i of Inl e \<Rightarrow> Inl e | Inr ci \<Rightarrow>
             edge_loop mode name_list weight color rest
               (edge_list @ [(name_a, name_b, wi, ci)])))"

definition log_weight :: "real \<Rightarrow> npfloat \<Rightarrow> npfloat" where
  \<comment> \<open>\<^verbatim>\<open>np.log(np.abs(scale * x) + 1) * 0.7\<close>\<close>
  "log_weight scale x = fmul (np_log (fadd (fabs (fmul (Fin scale) x)) (Fin 1))) (Fin (7 / 10))"

definition matrix_to_edge_list :: "npfloat list list \<Rightarrow> string \<Rightarrow> string list \<Rightarrow> error + edge list" where
  "matrix_to_edge_list matrix mode name_list =
     (let edge_list = [];
          shape = length matrix;
          lower_tri_loc = np_where_zero (np_triu 0 (np_ones shape shape))
      in case np_max (elementwise fabs matrix) of
           Inl e \<Rightarrow> Inl e
         | Inr mx \<Rightarrow>
             let normalized_matrix = elementwise (\<lambda>x. fdiv x mx) matrix;
                 weight = None;
                 color = None;
                 (weight, color) =
                   (if mode = ''co-occurrence''
                    then (Some (elementwise (\<lambda>x. fmul (np_log (fadd (fmul (Fin 2000) x) (Fin 1)))
                                                    (Fin (7 / 10))) normalized_matrix),
                          Some (elementwise (\<lambda>x. np_log (fadd (fmul (Fin 2000) x) (Fin 1)))
                                  normalized_matrix))
                    else (weight, color));
                 (weight, color) =
                   (if mode = ''sentiment''
                    then (Some (elementwise (log_weight 1000) normalized_matrix),
                          Some (elementwise (fmul (Fin 2000)) normalized_matrix))
                    else (weight, color));
                 (weight, color) =
                   (if mode = ''bare''
                    then (Some (elementwise (log_weight 1000) normalized_matrix),
                          Some (elementwise (fmul (Fin 2000)) normalized_matrix))
                    else (weight, color))
             in edge_loop mode name_list weight color lower_tri_loc edge_list)"

section \<open>Properties\<close>

subsection \<open>The alignment rate\<close>

lemma length_np_nonzero: "length (np_nonzero xs) = length (filter (\<lambda>x. x \<noteq> 0) xs)"
proof -
  have "filter (\<lambda>x. x \<noteq> 0) (map (nth xs) [0..<length xs])
          = map (nth xs) (filter ((\<lambda>x. x \<noteq> 0) \<circ> nth xs) [0..<length xs])"
    by (rule filter_map)
  then have "length (filter (\<lambda>x. x \<noteq> 0) xs) = length (filter ((\<lambda>x. x \<noteq> 0) \<circ> nth xs) [0..<length xs])"
    by (simp add: map_nth)
  then show ?thesis by (simp add: np_nonzero_def comp_def)
qed

text \<open>
  Claim C6. When at least one sentence has a non-zero sentiment score, the alignment
  rate is the sum of the scores divided by the number of non-zero scores, times \<open>-2\<close>;
  for the scores \<open>[2, -1, 0, 3]\<close> it is \<open>-8/3\<close>.
\<close>

theorem calculate_align_rate_formula:
  assumes "\<exists>s \<in> set sentence_list. score s \<noteq> 0"
  shows "calculate_align_rate score sentence_list
           = Fin (sum_list (map score sentence_list)
                   / real (length (filter (\<lambda>x. x \<noteq> 0) (map score sentence_list))) * (- 2))
         \<and> (map score sentence_list = [2, - 1, 0, 3]
              \<longrightarrow> calculate_align_rate score sentence_list = Fin (- 8 / 3))"
proof -
  from assms have pos: "length (filter (\<lambda>x. x \<noteq> 0) (map score sentence_list)) \<noteq> 0"
    by (auto simp: filter_empty_conv)
  have main: "calculate_align_rate score sentence_list
           = Fin (sum_list (map score sentence_list)
                   / real (length (filter (\<lambda>x. x \<noteq> 0) (map score sentence_list))) * (- 2))"
    using pos by (simp add: calculate_align_rate_def Let_def length_np_nonzero del: length_filter_map)
  show ?thesis
  proof (intro conjI impI)
    show "calculate_align_rate score sentence_list
           = Fin (sum_list (map score sentence_list)
                   / real (length (filter (\<lambda>x. x \<noteq> 0) (map score sentence_list))) * (- 2))"
      by (rule main)
  next
    assume "map score sentence_list = [2, - 1, 0, 3]"
    then show "calculate_align_rate score sentence_list = Fin (- 8 / 3)"
      unfolding main by simp
  qed
qed

theorem calculate_align_rate_formula_witness:
  "calculate_align_rate (\<lambda>s. if s = ''good'' then 2 else if s = ''bad'' then - 1
                              else if s = ''great'' then 3 else 0)
     [''good'', ''bad'', ''plain'', ''great''] = Fin (- 8 / 3)"
  using calculate_align_rate_formula
    [of "[''good'', ''bad'', ''plain'', ''great'']"
        "\<lambda>s. if s = ''good'' then 2 else if s = ''bad'' then - 1
                              else if s = ''great'' then 3 else 0"]
  by simp

text \<open>
  Claim C7 says that without a non-zero score the calculator fails. It does not: the
  sum of the scores is then zero, numpy divides zero by zero, and the function returns
  not-a-number. The model has no failing branch because the source has none.
\<close>

theorem calculate_align_rate_no_error_counterexample:
  "calculate_align_rate (\<lambda>s. 0) [''The cat sat.''] = NaN"
  by (simp add: calculate_align_rate_def np_nonzero_def)

text \<open>
  Claim C7, amended. For every sentence list in which no sentence has a non-zero
  sentiment score (the empty list included), the alignment rate calculator returns
  not-a-number, and raises nothing.
\<close>

theorem calculate_align_rate_all_zero:
  assumes "\<forall>s \<in> set sentence_list. score s = 0"
  shows "calculate_align_rate score sentence_list = NaN"
proof -
  from assms have z: "filter (\<lambda>x. x \<noteq> 0) (map score sentence_list) = []"
    by (auto simp: filter_empty_conv)
  from assms have "map score sentence_list = map (\<lambda>_. 0) sentence_list" by simp
  then have s: "sum_list (map score sentence_list) = 0" by (simp del: map_eq_conv)
  show ?thesis
    using z s by (simp add: calculate_align_rate_def Let_def length_np_nonzero del: length_filter_map)
qed

theorem calculate_align_rate_all_zero_witness:
  "calculate_align_rate (\<lambda>s. 0) [''The cat sat.'', ''It rained.''] = NaN"
  using calculate_align_rate_all_zero [of "[''The cat sat.'', ''It rained.'']" "\<lambda>s. 0"]
  by simp

subsection \<open>The name aggregator\<close>

lemma flatten_append: "flatten (xs @ ys) = flatten xs @ flatten ys"
  by (induction xs rule: flatten.induct) simp_all

lemma flatten_drop_empty: "flatten (filter (\<lambda>v. v \<noteq> PyList []) vs) = flatten vs"
  by (induction vs rule: flatten.induct) auto

lemma counter_add_keys: "set (map fst (counter_add x kvs)) = insert x (set (map fst kvs))"
  by (induction x kvs rule: counter_add.induct) auto

lemma counter_add_distinct:
  "distinct (map fst kvs) \<Longrightarrow> distinct (map fst (counter_add x kvs))"
proof (induction x kvs rule: counter_add.induct)
  case (1 x)
  then show ?case by simp
next
  case (2 x k n kvs)
  have "set (map fst (counter_add x kvs)) = insert x (set (map fst kvs))"
    by (rule counter_add_keys)
  with 2 show ?case by auto
qed

lemma counter_add_map_of:
  "map_of (counter_add x kvs) k
     = (if k = x then Some (case map_of kvs x of None \<Rightarrow> 1 | Some n \<Rightarrow> Suc n)
        else map_of kvs k)"
  by (induction x kvs rule: counter_add.induct) auto

lemma fold_counter_add_distinct:
  "distinct (map fst acc) \<Longrightarrow> distinct (map fst (fold counter_add xs acc))"
  by (induction xs arbitrary: acc) (simp_all add: counter_add_distinct)

lemma fold_counter_add_map_of:
  "map_of (fold counter_add xs acc) k
     = (case map_of acc k of
          None \<Rightarrow> if k \<in> set xs then Some (count_list xs k) else None
        | Some n \<Rightarrow> Some (n + count_list xs k))"
proof (induction xs arbitrary: acc)
  case Nil
  then show ?case by (simp split: option.splits)
next
  case (Cons x xs)
  show ?case
    by (simp add: Cons.IH counter_add_map_of split: option.splits)
qed

lemma Counter_distinct: "distinct (map fst (Counter xs))"
  by (simp add: Counter_def fold_counter_add_distinct)

lemma Counter_member:
  "(k, n) \<in> set (Counter xs) \<longleftrightarrow> k \<in> set xs \<and> n = count_list xs k"
proof -
  have "(k, n) \<in> set (Counter xs) \<longleftrightarrow> map_of (Counter xs) k = Some n"
    using Counter_distinct [of xs] by (simp add: map_of_eq_Some_iff)
  also have "\<dots> \<longleftrightarrow> k \<in> set xs \<and> n = count_list xs k"
    by (auto simp add: Counter_def fold_counter_add_map_of)
  finally show ?thesis .
qed

text \<open>
  Claim C9 says that the aggregator fails on the empty sentence list. It does not: the
  loop body never runs, the counter is empty and the result is the empty list. The
  threshold is a product, so nothing is divided.
\<close>

theorem iterative_NER_empty_counterexample:
  "iterative_NER Fin (\<lambda>s. PyList [Atom s]) [] (Fin (1 / 2000)) = []"
  by (simp add: iterative_NER_def Counter_def)

text \<open>
  Claim C9, amended. For every sentence list the aggregator returns a list without
  duplicates that holds exactly the names whose number of occurrences in the extractor's
  results over all sentences is at least the threshold the code computes, which is the
  product of \<open>threshold_rate\<close> and the number of sentences rounded to a \<^verbatim>\<open>float64\<close>;
  for the empty sentence list that result is the empty list.
\<close>

theorem iterative_NER_threshold:
  "distinct (iterative_NER fl ner sentence_list threshold_rate)
   \<and> (\<forall>x. x \<in> set (iterative_NER fl ner sentence_list threshold_rate)
          \<longleftrightarrow> x \<in> set (flatten (map ner sentence_list))
              \<and> int_ge (count_list (flatten (map ner sentence_list)) x)
                  (float_mul_int fl threshold_rate (length sentence_list)))
   \<and> iterative_NER fl ner [] threshold_rate = []"
proof (intro conjI allI)
  show "distinct (iterative_NER fl ner sentence_list threshold_rate)"
    unfolding iterative_NER_def Let_def
    by (rule distinct_map_filter) (rule Counter_distinct)
next
  fix x
  let ?flat = "flatten (map ner sentence_list)"
  let ?p = "float_mul_int fl threshold_rate (length sentence_list)"
  have "x \<in> set (iterative_NER fl ner sentence_list threshold_rate)
        \<longleftrightarrow> (\<exists>n. (x, n) \<in> set (Counter ?flat) \<and> int_ge n ?p)"
    by (force simp add: iterative_NER_def Let_def flatten_drop_empty)
  also have "\<dots> \<longleftrightarrow> x \<in> set ?flat \<and> int_ge (count_list ?flat x) ?p"
    by (auto simp add: Counter_member)
  finally show "x \<in> set (iterative_NER fl ner sentence_list threshold_rate)
          \<longleftrightarrow> x \<in> set ?flat \<and> int_ge (count_list ?flat x) ?p" .
next
  show "iterative_NER fl ner [] threshold_rate = []"
    by (simp add: iterative_NER_def Counter_def)
qed

text \<open>
  An instance at a threshold where the rounding matters. The rate is the
  \<^verbatim>\<open>float64\<close> nearest to \<open>0.1\<close>, which is slightly above it; its exact product with
  ten sentences is slightly above one and rounds to one, so a name seen once is kept,
  which a comparison with the exact product would have dropped.
\<close>

theorem iterative_NER_threshold_witness:
  "''tom'' \<in> set (iterative_NER
      (\<lambda>x. if x = 36028797018963970 / 36028797018963968 then Fin 1 else Fin x)
      (\<lambda>s. if s = ''s0'' then PyList [Atom ''tom''] else PyList [])
      [''s0'', ''s1'', ''s2'', ''s3'', ''s4'', ''s5'', ''s6'', ''s7'', ''s8'', ''s9'']
      (Fin (3602879701896397 / 36028797018963968)))
   \<and> ''ann'' \<notin> set (iterative_NER
      (\<lambda>x. if x = 36028797018963970 / 36028797018963968 then Fin 1 else Fin x)
      (\<lambda>s. if s = ''s0'' then PyList [Atom ''tom''] else PyList [])
      [''s0'', ''s1'', ''s2'', ''s3'', ''s4'', ''s5'', ''s6'', ''s7'', ''s8'', ''s9'']
      (Fin (3602879701896397 / 36028797018963968)))"
  using iterative_NER_threshold
    [of "\<lambda>x. if x = 36028797018963970 / 36028797018963968 then Fin 1 else Fin x"
        "\<lambda>s. if s = ''s0'' then PyList [Atom ''tom''] else PyList []"
        "[''s0'', ''s1'', ''s2'', ''s3'', ''s4'', ''s5'', ''s6'', ''s7'', ''s8'', ''s9'']"
        "Fin (3602879701896397 / 36028797018963968)"]
  by simp

subsection \<open>The matrix builder\<close>

lemma zero_diagonal_rows:
  "n \<le> length m \<Longrightarrow>
   zero_diagonal z n m = map (\<lambda>i. if i < n then (m ! i)[i := z] else m ! i) [0..<length m]"
proof (induction n)
  case 0
  show ?case by (simp add: zero_diagonal_def map_nth)
next
  case (Suc n)
  then have IH: "zero_diagonal z n m
      = map (\<lambda>i. if i < n then (m ! i)[i := z] else m ! i) [0..<length m]"
    and n: "n < length m" by simp_all
  have step: "zero_diagonal z (Suc n) m
      = (zero_diagonal z n m)[n := (zero_diagonal z n m ! n)[n := z]]"
    by (simp add: zero_diagonal_def)
  show ?case
    unfolding step IH using n
    by (intro nth_equalityI) (auto simp add: nth_list_update)
qed

lemma zero_diagonal_length: "n \<le> length m \<Longrightarrow> length (zero_diagonal z n m) = length m"
  by (simp add: zero_diagonal_rows)

lemma zero_diagonal_row_length:
  "length m = n \<Longrightarrow> i < n \<Longrightarrow> length (zero_diagonal z n m ! i) = length (m ! i)"
  by (simp add: zero_diagonal_rows)

lemma zero_diagonal_cell:
  "length m = n \<Longrightarrow> i < n \<Longrightarrow> j < length (m ! i) \<Longrightarrow>
   zero_diagonal z n m ! i ! j = (if i = j then z else m ! i ! j)"
  by (auto simp add: zero_diagonal_rows nth_list_update)

lemma np_tril_length: "length (np_tril z m) = length m"
  by (simp add: np_tril_def)

lemma np_tril_row_length: "i < length m \<Longrightarrow> length (np_tril z m ! i) = length (m ! i)"
  by (simp add: np_tril_def)

lemma np_tril_cell:
  "i < length m \<Longrightarrow> j < length (m ! i) \<Longrightarrow>
   np_tril z m ! i ! j = (if j \<le> i then m ! i ! j else z)"
  by (simp add: np_tril_def)

lemma presence_vector_length: "length (presence_vector analyze names s) = length names"
  by (simp add: presence_vector_def)

lemma presence_vector_cell:
  "i < length names \<Longrightarrow>
   presence_vector analyze names s ! i = (if names ! i \<in> set (analyze s) then 1 else 0)"
  by (simp add: presence_vector_def)

lemma map2_upt:
  "length xs = n \<Longrightarrow> map2 f xs (map g [0..<n]) = map (\<lambda>k. f (xs ! k) (g k)) [0..<n]"
  by (intro nth_equalityI) simp_all

lemma map_upt_nth: "map (\<lambda>k. g (xs ! k)) [0..<length xs] = map g xs"
  by (intro nth_equalityI) simp_all

lemma cooccurrence_cell:
  assumes "i < k" "j < k"
  shows "np_dot k (np_T k (map pv sents)) (map pv sents) ! i ! j
           = (\<Sum>s\<leftarrow>sents. pv s ! i * pv s ! j)"
  using assms
  by (simp add: np_dot_def np_T_def zip_map1 zip_map2 zip_same_conv_map comp_def case_prod_beta)

lemma sentiment_cell:
  assumes "i < k" "j < k"
  shows "np_dot k (elementwise real_of_int (np_T k (map pv sents)))
           (np_T (length sents)
              (map (\<lambda>row. map2 (\<lambda>p s. real_of_int p * s) row (map score sents))
                 (np_T k (map pv sents)))) ! i ! j
         = (\<Sum>s\<leftarrow>sents. real_of_int (pv s ! i) * (real_of_int (pv s ! j) * score s))"
proof -
  let ?n = "length sents"
  let ?g = "\<lambda>s. real_of_int (pv s ! i) * (real_of_int (pv s ! j) * score s)"
  have "np_dot k (elementwise real_of_int (np_T k (map pv sents)))
           (np_T ?n
              (map (\<lambda>row. map2 (\<lambda>p s. real_of_int p * s) row (map score sents))
                 (np_T k (map pv sents)))) ! i ! j
        = sum_list (map2 (\<lambda>x brow. x * brow ! j) (map (\<lambda>s. real_of_int (pv s ! i)) sents)
            (map (\<lambda>c. map (\<lambda>row. row ! c)
                 (map (\<lambda>row. map2 (\<lambda>p s. real_of_int p * s) row (map score sents))
                 (np_T k (map pv sents)))) [0..<?n]))"
    using assms by (simp add: np_dot_def elementwise_def np_T_def comp_def)
  also have "\<dots> = sum_list (map (\<lambda>c. real_of_int (pv (sents ! c) ! i)
                 * (map (\<lambda>row. row ! c)
                 (map (\<lambda>row. map2 (\<lambda>p s. real_of_int p * s) row (map score sents))
                 (np_T k (map pv sents))) ! j)) [0..<?n])"
  proof -
    have "map2 (\<lambda>x brow. x * brow ! j) (map (\<lambda>s. real_of_int (pv s ! i)) sents)
            (map (\<lambda>c. map (\<lambda>row. row ! c)
                 (map (\<lambda>row. map2 (\<lambda>p s. real_of_int p * s) row (map score sents))
                 (np_T k (map pv sents)))) [0..<?n])
          = map (\<lambda>c. map (\<lambda>s. real_of_int (pv s ! i)) sents ! c
                 * (map (\<lambda>row. row ! c)
                 (map (\<lambda>row. map2 (\<lambda>p s. real_of_int p * s) row (map score sents))
                 (np_T k (map pv sents))) ! j)) [0..<?n]"
      by (rule map2_upt) simp
    also have "\<dots> = map (\<lambda>c. real_of_int (pv (sents ! c) ! i)
                 * (map (\<lambda>row. row ! c)
                 (map (\<lambda>row. map2 (\<lambda>p s. real_of_int p * s) row (map score sents))
                 (np_T k (map pv sents))) ! j)) [0..<?n]"
      by (rule map_cong) simp_all
    finally show ?thesis by (rule arg_cong)
  qed
  also have "\<dots> = sum_list (map (\<lambda>c. ?g (sents ! c)) [0..<?n])"
    using assms by (intro arg_cong [where f = sum_list] map_cong) (simp_all add: np_T_def)
  also have "\<dots> = sum_list (map ?g sents)"
    using map_upt_nth [of ?g sents] by simp
  finally show ?thesis .
qed

lemma count_both:
  "(\<Sum>s\<leftarrow>sents. (if P s then 1 else 0) * (if Q s then 1 else (0::int)))
     = int (length (filter (\<lambda>s. P s \<and> Q s) sents))"
  by (induction sents) simp_all

lemma sum_both:
  "(\<Sum>s\<leftarrow>sents. real_of_int (if P s then 1 else 0) * (real_of_int (if Q s then 1 else 0) * f s))
     = (\<Sum>s\<leftarrow>filter (\<lambda>s. P s \<and> Q s) sents. f s)"
  by (induction sents) simp_all


lemma np_T_length: "length (np_T k a) = k"
  by (simp add: np_T_def)

lemma np_dot_length: "length (np_dot k a b) = length a"
  by (simp add: np_dot_def)

lemma np_dot_row_length: "i < length a \<Longrightarrow> length (np_dot k a b ! i) = k"
  by (simp add: np_dot_def)

lemma calculate_matrix_unfold:
  assumes "calculate_matrix analyze score names sents a = Inr (C, S)"
  shows "names \<noteq> [] \<and> distinct names
    \<and> C = zero_diagonal 0 (length names)
            (np_tril 0 (np_dot (length names)
               (np_T (length names) (map (presence_vector analyze names) sents))
               (map (presence_vector analyze names) sents)))
    \<and> S = zero_diagonal (Fin 0) (length names)
            (np_tril (Fin 0)
               (map2 (map2 (\<lambda>s c. fadd (Fin s) (fmul a (Fin (real_of_int c)))))
                  (np_dot (length names)
                     (elementwise real_of_int
                        (np_T (length names) (map (presence_vector analyze names) sents)))
                     (np_T (length sents)
                        (map (\<lambda>row. map2 (\<lambda>p s. real_of_int p * s) row (map score sents))
                           (np_T (length names) (map (presence_vector analyze names) sents)))))
                  (np_dot (length names)
                     (np_T (length names) (map (presence_vector analyze names) sents))
                     (map (presence_vector analyze names) sents))))"
  using assms
  by (simp add: calculate_matrix_def fit_transform_def Let_def np_tril_length np_dot_length
        np_T_length split: if_splits)

lemma calculate_matrix_cells:
  assumes res: "calculate_matrix analyze score names sents a = Inr (C, S)"
  shows "length C = length names \<and> length S = length names"
    and "i < length names \<Longrightarrow> length (C ! i) = length names \<and> length (S ! i) = length names"
    and "i < length names \<Longrightarrow> j < length names \<Longrightarrow>
           C ! i ! j = (if j < i
             then int (length (filter (\<lambda>s. presence_vector analyze names s ! i = 1
                                         \<and> presence_vector analyze names s ! j = 1) sents))
             else 0)"
    and "i < length names \<Longrightarrow> j < length names \<Longrightarrow>
           S ! i ! j = (if j < i
             then fadd (Fin (\<Sum>s\<leftarrow>filter (\<lambda>s. presence_vector analyze names s ! i = 1
                                         \<and> presence_vector analyze names s ! j = 1) sents. score s))
                       (fmul a (Fin (real_of_int (C ! i ! j))))
             else Fin 0)"
proof -
  let ?k = "length names"
  let ?pv = "presence_vector analyze names"
  let ?P = "map ?pv sents"
  let ?C0 = "np_dot ?k (np_T ?k ?P) ?P"
  let ?S0 = "np_dot ?k (elementwise real_of_int (np_T ?k ?P))
               (np_T (length sents)
                  (map (\<lambda>row. map2 (\<lambda>p s. real_of_int p * s) row (map score sents))
                     (np_T ?k ?P)))"
  let ?g = "\<lambda>s c. fadd (Fin s) (fmul a (Fin (real_of_int c)))"
  let ?S1 = "map2 (map2 ?g) ?S0 ?C0"
  from calculate_matrix_unfold [OF res]
  have C: "C = zero_diagonal 0 ?k (np_tril 0 ?C0)"
    and S: "S = zero_diagonal (Fin 0) ?k (np_tril (Fin 0) ?S1)"
    by simp_all
  have lC0: "length ?C0 = ?k" by (simp add: np_dot_length np_T_length)
  have lS0: "length ?S0 = ?k" by (simp add: np_dot_length np_T_length elementwise_def)
  have rC0: "length (?C0 ! r) = ?k" if "r < ?k" for r
    using that by (simp add: np_dot_row_length np_T_length)
  have rS0: "length (?S0 ! r) = ?k" if "r < ?k" for r
    using that by (simp add: np_dot_row_length np_T_length elementwise_def)
  have lS1: "length ?S1 = ?k" using lC0 lS0 by simp
  have rS1: "length (?S1 ! r) = ?k" if "r < ?k" for r
    using that lC0 lS0 rC0 rS0 by simp
  have cS1: "?S1 ! r ! c = ?g (?S0 ! r ! c) (?C0 ! r ! c)" if "r < ?k" "c < ?k" for r c
    using that lC0 lS0 rC0 rS0 by simp
  have lTC: "length (np_tril 0 ?C0) = ?k" using lC0 by (simp add: np_tril_length)
  have lTS: "length (np_tril (Fin 0) ?S1) = ?k" using lS1 by (simp only: np_tril_length)
  have rTC: "length (np_tril 0 ?C0 ! r) = ?k" if "r < ?k" for r
    using that lC0 rC0 by (simp add: np_tril_row_length)
  have rTS: "length (np_tril (Fin 0) ?S1 ! r) = ?k" if "r < ?k" for r
    using that lS1 rS1 by (simp only: np_tril_row_length)
  show "length C = ?k \<and> length S = ?k"
    unfolding C S using lTC lTS by (simp only: zero_diagonal_length order_refl)
  have Ccell: "C ! r ! c = (if r = c then 0 else if c \<le> r then ?C0 ! r ! c else 0)"
    if "r < ?k" "c < ?k" for r c
  proof -
    have "C ! r ! c = (if r = c then 0 else np_tril 0 ?C0 ! r ! c)"
      unfolding C
    proof (rule zero_diagonal_cell)
      show "length (np_tril 0 ?C0) = ?k" by (rule lTC)
      show "r < ?k" by (rule that)
      show "c < length (np_tril 0 ?C0 ! r)" using that rTC by (simp only:)
    qed
    also have "np_tril 0 ?C0 ! r ! c = (if c \<le> r then ?C0 ! r ! c else 0)"
    proof (rule np_tril_cell)
      show "r < length ?C0" using that lC0 by (simp only:)
      show "c < length (?C0 ! r)" using that rC0 by (simp only:)
    qed
    finally show ?thesis by simp
  qed
  have Scell: "S ! r ! c = (if r = c then Fin 0 else if c \<le> r then ?S1 ! r ! c else Fin 0)"
    if "r < ?k" "c < ?k" for r c
  proof -
    have "S ! r ! c = (if r = c then Fin 0 else np_tril (Fin 0) ?S1 ! r ! c)"
      unfolding S
    proof (rule zero_diagonal_cell)
      show "length (np_tril (Fin 0) ?S1) = ?k" by (rule lTS)
      show "r < ?k" by (rule that)
      show "c < length (np_tril (Fin 0) ?S1 ! r)" using that rTS by (simp only:)
    qed
    also have "np_tril (Fin 0) ?S1 ! r ! c = (if c \<le> r then ?S1 ! r ! c else Fin 0)"
    proof (rule np_tril_cell)
      show "r < length ?S1" using that lS1 by (simp only:)
      show "c < length (?S1 ! r)" using that rS1 by (simp only:)
    qed
    finally show ?thesis by simp
  qed
  have one: "(?pv s ! r = 1) = (names ! r \<in> set (analyze s))" if "r < ?k" for r s
    using that by (simp add: presence_vector_cell)
  have C0cell: "?C0 ! r ! c
      = int (length (filter (\<lambda>s. ?pv s ! r = 1 \<and> ?pv s ! c = 1) sents))"
    if "r < ?k" "c < ?k" for r c
  proof -
    have "?C0 ! r ! c = (\<Sum>s\<leftarrow>sents. ?pv s ! r * ?pv s ! c)"
      using that by (rule cooccurrence_cell)
    also have "\<dots> = (\<Sum>s\<leftarrow>sents. (if names ! r \<in> set (analyze s) then 1 else 0)
                          * (if names ! c \<in> set (analyze s) then 1 else 0))"
      using that by (simp only: presence_vector_cell)
    also have "\<dots> = int (length (filter (\<lambda>s. names ! r \<in> set (analyze s)
                                          \<and> names ! c \<in> set (analyze s)) sents))"
      by (rule count_both)
    also have "\<dots> = int (length (filter (\<lambda>s. ?pv s ! r = 1 \<and> ?pv s ! c = 1) sents))"
      using that by (simp only: one)
    finally show ?thesis .
  qed
  have S0cell: "?S0 ! r ! c
      = (\<Sum>s\<leftarrow>filter (\<lambda>s. ?pv s ! r = 1 \<and> ?pv s ! c = 1) sents. score s)"
    if "r < ?k" "c < ?k" for r c
  proof -
    have "?S0 ! r ! c
        = (\<Sum>s\<leftarrow>sents. real_of_int (?pv s ! r) * (real_of_int (?pv s ! c) * score s))"
      using that by (rule sentiment_cell)
    also have "\<dots> = (\<Sum>s\<leftarrow>sents. real_of_int (if names ! r \<in> set (analyze s) then 1 else 0)
                 * (real_of_int (if names ! c \<in> set (analyze s) then 1 else 0) * score s))"
      using that by (simp only: presence_vector_cell)
    also have "\<dots> = (\<Sum>s\<leftarrow>filter (\<lambda>s. names ! r \<in> set (analyze s)
                                   \<and> names ! c \<in> set (analyze s)) sents. score s)"
      by (rule sum_both)
    also have "\<dots> = (\<Sum>s\<leftarrow>filter (\<lambda>s. ?pv s ! r = 1 \<and> ?pv s ! c = 1) sents. score s)"
      using that by (simp only: one)
    finally show ?thesis .
  qed
  show "length (C ! i) = ?k \<and> length (S ! i) = ?k" if "i < ?k"
  proof -
    have "length (C ! i) = length (np_tril 0 ?C0 ! i)"
      unfolding C using lTC that by (rule zero_diagonal_row_length)
    moreover have "length (S ! i) = length (np_tril (Fin 0) ?S1 ! i)"
      unfolding S using lTS that by (rule zero_diagonal_row_length)
    ultimately show ?thesis using rTC rTS that by simp
  qed
  show "C ! i ! j = (if j < i
             then int (length (filter (\<lambda>s. ?pv s ! i = 1 \<and> ?pv s ! j = 1) sents))
             else 0)" if "i < ?k" "j < ?k"
    using that by (simp add: Ccell C0cell)
  show "S ! i ! j = (if j < i
             then fadd (Fin (\<Sum>s\<leftarrow>filter (\<lambda>s. ?pv s ! i = 1 \<and> ?pv s ! j = 1) sents. score s))
                       (fmul a (Fin (real_of_int (C ! i ! j))))
             else Fin 0)" if "i < ?k" "j < ?k"
    using that by (simp add: Scell Ccell cS1 C0cell S0cell)
qed


lemma calculate_matrix_returns:
  assumes "names \<noteq> []" "distinct names"
  shows "\<exists>C S. calculate_matrix analyze score names sents a = Inr (C, S)"
  using assms by (simp add: calculate_matrix_def fit_transform_def Let_def)

text \<open>
  Claim C1. For a vocabulary the vectorizer accepts (not empty, no repeated name), every
  sentence list and every alignment rate, the matrix builder returns two matrices, and
  in every cell \<open>(i, j)\<close> strictly below the diagonal the co-occurrence matrix holds the
  number of sentences whose presence vector has a one for name \<open>i\<close> and for name \<open>j\<close>,
  and the sentiment matrix holds the sum of the scores of those sentences plus the
  alignment rate times that number.
\<close>

theorem calculate_matrix_lower_cells:
  assumes "names \<noteq> []" and "distinct names"
  shows "\<exists>C S. calculate_matrix analyze score names sents a = Inr (C, S)
           \<and> (\<forall>i < length names. \<forall>j < i.
                 C ! i ! j = int (length (filter (\<lambda>s. presence_vector analyze names s ! i = 1
                                         \<and> presence_vector analyze names s ! j = 1) sents))
               \<and> S ! i ! j
                   = fadd (Fin (\<Sum>s\<leftarrow>filter (\<lambda>s. presence_vector analyze names s ! i = 1
                                         \<and> presence_vector analyze names s ! j = 1) sents. score s))
                       (fmul a (Fin (real_of_int (C ! i ! j)))))"
proof -
  from calculate_matrix_returns [OF assms] obtain C S
    where res: "calculate_matrix analyze score names sents a = Inr (C, S)" by blast
  have "C ! i ! j = int (length (filter (\<lambda>s. presence_vector analyze names s ! i = 1
                                         \<and> presence_vector analyze names s ! j = 1) sents))
      \<and> S ! i ! j
          = fadd (Fin (\<Sum>s\<leftarrow>filter (\<lambda>s. presence_vector analyze names s ! i = 1
                                         \<and> presence_vector analyze names s ! j = 1) sents. score s))
              (fmul a (Fin (real_of_int (C ! i ! j))))"
    if "i < length names" "j < i" for i j
  proof -
    from that have j: "j < length names" by simp
    show ?thesis
      using calculate_matrix_cells(3) [OF res that(1) j]
        calculate_matrix_cells(4) [OF res that(1) j] that(2)
      by simp
  qed
  with res show ?thesis by blast
qed

theorem calculate_matrix_lower_cells_witness:
  "\<exists>C S. calculate_matrix
            (\<lambda>s. if s = ''s1'' then [''alice'', ''met'', ''bob'']
                  else if s = ''s2'' then [''bob'', ''left'']
                  else [''bob'', ''thanked'', ''alice''])
            (\<lambda>s. if s = ''s1'' then 1 else if s = ''s2'' then 4 else - 3)
            [''alice'', ''bob''] [''s1'', ''s2'', ''s3''] (Fin 5) = Inr (C, S)
         \<and> C ! 1 ! 0 = 2 \<and> S ! 1 ! 0 = Fin 8"
proof -
  let ?an = "\<lambda>s. if s = ''s1'' then [''alice'', ''met'', ''bob'']
                  else if s = ''s2'' then [''bob'', ''left'']
                  else [''bob'', ''thanked'', ''alice'']"
  let ?sc = "\<lambda>s. if s = ''s1'' then 1 else if s = ''s2'' then 4 else (- 3 :: real)"
  have h1: "[''alice'', ''bob''] \<noteq> []" and h2: "distinct [''alice'', ''bob'']" by simp_all
  from calculate_matrix_lower_cells [OF h1 h2, of ?an ?sc "[''s1'', ''s2'', ''s3'']" "Fin 5"]
  obtain C S where res: "calculate_matrix ?an ?sc [''alice'', ''bob''] [''s1'', ''s2'', ''s3''] (Fin 5)
                     = Inr (C, S)"
    and cells: "\<forall>i < length [''alice'', ''bob'']. \<forall>j < i.
                 C ! i ! j = int (length (filter (\<lambda>s. presence_vector ?an [''alice'', ''bob''] s ! i = 1
                                         \<and> presence_vector ?an [''alice'', ''bob''] s ! j = 1) [''s1'', ''s2'', ''s3'']))
               \<and> S ! i ! j
                   = fadd (Fin (\<Sum>s\<leftarrow>filter (\<lambda>s. presence_vector ?an [''alice'', ''bob''] s ! i = 1
                                         \<and> presence_vector ?an [''alice'', ''bob''] s ! j = 1) [''s1'', ''s2'', ''s3'']. ?sc s))
                       (fmul (Fin 5) (Fin (real_of_int (C ! i ! j))))"
    by blast
  from cells have "C ! 1 ! 0 = int (length (filter (\<lambda>s. presence_vector ?an [''alice'', ''bob''] s ! 1 = 1
                                         \<and> presence_vector ?an [''alice'', ''bob''] s ! 0 = 1) [''s1'', ''s2'', ''s3'']))
               \<and> S ! 1 ! 0
                   = fadd (Fin (\<Sum>s\<leftarrow>filter (\<lambda>s. presence_vector ?an [''alice'', ''bob''] s ! 1 = 1
                                         \<and> presence_vector ?an [''alice'', ''bob''] s ! 0 = 1) [''s1'', ''s2'', ''s3'']. ?sc s))
                       (fmul (Fin 5) (Fin (real_of_int (C ! 1 ! 0))))"
    by simp
  then have "C ! 1 ! 0 = 2 \<and> S ! 1 ! 0 = Fin 8"
    by (simp add: presence_vector_def)
  with res show ?thesis by blast
qed

text \<open>
  Claim C2. For a vocabulary of size \<open>K\<close> that the vectorizer accepts, both matrices the
  builder returns have \<open>K\<close> rows of length \<open>K\<close>, a zero diagonal, and zero in every cell
  strictly above the diagonal.
\<close>

theorem calculate_matrix_shape:
  assumes "names \<noteq> []" and "distinct names"
  shows "\<exists>C S. calculate_matrix analyze score names sents a = Inr (C, S)
           \<and> length C = length names \<and> length S = length names
           \<and> (\<forall>i < length names.
                 length (C ! i) = length names \<and> length (S ! i) = length names
               \<and> C ! i ! i = 0 \<and> S ! i ! i = Fin 0
               \<and> (\<forall>j < length names. i < j \<longrightarrow> C ! i ! j = 0 \<and> S ! i ! j = Fin 0))"
proof -
  from calculate_matrix_returns [OF assms] obtain C S
    where res: "calculate_matrix analyze score names sents a = Inr (C, S)" by blast
  have len: "length C = length names \<and> length S = length names"
    by (rule calculate_matrix_cells(1) [OF res])
  have row: "length (C ! i) = length names \<and> length (S ! i) = length names
               \<and> C ! i ! i = 0 \<and> S ! i ! i = Fin 0
               \<and> (\<forall>j < length names. i < j \<longrightarrow> C ! i ! j = 0 \<and> S ! i ! j = Fin 0)"
    if i: "i < length names" for i
  proof -
    have "length (C ! i) = length names \<and> length (S ! i) = length names"
      by (rule calculate_matrix_cells(2) [OF res i])
    moreover have "C ! i ! i = 0" using calculate_matrix_cells(3) [OF res i i] by simp
    moreover have "S ! i ! i = Fin 0" using calculate_matrix_cells(4) [OF res i i] by simp
    moreover have "C ! i ! j = 0 \<and> S ! i ! j = Fin 0" if "j < length names" "i < j" for j
      using calculate_matrix_cells(3) [OF res i that(1)]
        calculate_matrix_cells(4) [OF res i that(1)] that(2) by simp
    ultimately show ?thesis by blast
  qed
  from res len row show ?thesis by blast
qed

theorem calculate_matrix_shape_witness:
  "\<exists>C S. calculate_matrix (\<lambda>s. [s]) (\<lambda>s. 1) [''alice'', ''bob''] [''alice'', ''bob''] (Fin 5)
            = Inr (C, S)
         \<and> length C = 2 \<and> length S = 2 \<and> length (C ! 0) = 2 \<and> length (S ! 1) = 2
         \<and> C ! 1 ! 1 = 0 \<and> S ! 0 ! 0 = Fin 0 \<and> C ! 0 ! 1 = 0 \<and> S ! 0 ! 1 = Fin 0"
proof -
  have h1: "[''alice'', ''bob''] \<noteq> []" and h2: "distinct [''alice'', ''bob'']" by simp_all
  from calculate_matrix_shape [OF h1 h2, of "\<lambda>s. [s]" "\<lambda>s. 1" "[''alice'', ''bob'']" "Fin 5"]
  show ?thesis by (auto simp add: numeral_2_eq_2)
qed

subsection \<open>The edge projector\<close>

lemma filter_less_upt: "i \<le> n \<Longrightarrow> filter (\<lambda>j. j < i) [0..<n] = [0..<i]"
proof (induction n)
  case 0
  then show ?case by simp
next
  case (Suc n)
  show ?case
  proof (cases "i = Suc n")
    case True
    then show ?thesis by (simp add: filter_id_conv)
  next
    case False
    with Suc have "i \<le> n" by simp
    with Suc.IH show ?thesis by simp
  qed
qed

lemma np_triu_ones:
  "np_triu 0 (np_ones n n) = map (\<lambda>i. map (\<lambda>j. if i \<le> j then 1 else 0) [0..<n]) [0..<n]"
  by (simp add: np_triu_def np_ones_def)

lemma lower_tri_loc_eq:
  "np_where_zero (np_triu 0 (np_ones n n)) = concat (map (\<lambda>i. map (\<lambda>j. (i, j)) [0..<i]) [0..<n])"
proof -
  have row: "filter (\<lambda>j. map (\<lambda>j. if i \<le> j then 1 else (0::real)) [0..<n] ! j = 0) [0..<n]
             = [0..<i]" if "i < n" for i
  proof -
    have "filter (\<lambda>j. map (\<lambda>j. if i \<le> j then 1 else (0::real)) [0..<n] ! j = 0) [0..<n]
          = filter (\<lambda>j. j < i) [0..<n]"
      by (auto intro!: filter_cong split: if_splits)
    then show ?thesis using that by (simp add: filter_less_upt)
  qed
  show ?thesis
    unfolding np_triu_ones np_where_zero_def
    by (rule arg_cong [where f = concat], rule map_cong) (simp_all add: row)
qed

lemma lower_tri_loc_member:
  "i \<in> set (concat (map (\<lambda>i. map (\<lambda>j. (i, j)) [0..<i]) [0..<n])) \<longleftrightarrow> snd i < fst i \<and> fst i < n"
  by (cases i) force

lemma lower_tri_loc_distinct:
  "distinct (concat (map (\<lambda>i. map (\<lambda>j. (i, j)) [0..<i]) [0..<n]))"
proof (rule distinct_concat)
  show "distinct (map (\<lambda>i. map (\<lambda>j. (i, j)) [0..<i]) [0..<n])"
    by (auto simp add: distinct_map inj_on_def dest: arg_cong [where f = length])
qed (auto simp add: distinct_map inj_on_def)

lemma edge_loop_Inr:
  "edge_loop mode names W Cl locs acc = Inr es \<Longrightarrow>
   es = acc @ map (\<lambda>i. (names ! fst i, names ! snd i, the W ! fst i ! snd i, the Cl ! fst i ! snd i))
                (filter (\<lambda>i. mode \<noteq> ''bare'' \<or> fgt (the W ! fst i ! snd i) (Fin (1 / 10000))) locs)
   \<and> (\<forall>i \<in> set (filter (\<lambda>i. mode \<noteq> ''bare'' \<or> fgt (the W ! fst i ! snd i) (Fin (1 / 10000))) locs).
         fst i < length names \<and> snd i < length names)"
proof (induction locs arbitrary: acc)
  case Nil
  then show ?case by simp
next
  case (Cons i locs)
  show ?case
  proof (cases "mode \<noteq> ''bare'' \<or> fgt (the W ! fst i ! snd i) (Fin (1 / 10000))")
    case True
    with Cons.prems obtain w c where
      W: "W = Some w" and Cl: "Cl = Some c"
      and a: "fst i < length names" and b: "snd i < length names"
      and rest: "edge_loop mode names W Cl locs
                   (acc @ [(names ! fst i, names ! snd i, w ! fst i ! snd i, c ! fst i ! snd i)]) = Inr es"
      by (auto simp add: item_def cell_def local_var_def
            split: if_splits sum.splits option.splits bool.splits)
    from Cons.IH [OF rest] True a b W Cl show ?thesis by simp
  next
    case False
    with Cons.prems have rest: "edge_loop mode names W Cl locs acc = Inr es"
      by (auto simp add: item_def cell_def local_var_def
            split: if_splits sum.splits option.splits bool.splits)
    from Cons.IH [OF rest] False show ?thesis by simp
  qed
qed

lemma edge_loop_in_range:
  assumes "\<forall>i \<in> set locs. fst i < length names \<and> snd i < length names
              \<and> fst i < length w \<and> snd i < length (w ! fst i)
              \<and> fst i < length c \<and> snd i < length (c ! fst i)"
  shows "edge_loop mode names (Some w) (Some c) locs acc
     = Inr (acc @ map (\<lambda>i. (names ! fst i, names ! snd i, w ! fst i ! snd i, c ! fst i ! snd i))
                (filter (\<lambda>i. mode \<noteq> ''bare'' \<or> fgt (w ! fst i ! snd i) (Fin (1 / 10000))) locs))"
  using assms
proof (induction locs arbitrary: acc)
  case Nil
  then show ?case by simp
next
  case (Cons i locs)
  then have IH: "\<And>acc. edge_loop mode names (Some w) (Some c) locs acc
     = Inr (acc @ map (\<lambda>i. (names ! fst i, names ! snd i, w ! fst i ! snd i, c ! fst i ! snd i))
                (filter (\<lambda>i. mode \<noteq> ''bare'' \<or> fgt (w ! fst i ! snd i) (Fin (1 / 10000))) locs))"
    and i: "fst i < length names" "snd i < length names" "fst i < length w"
      "snd i < length (w ! fst i)" "fst i < length c" "snd i < length (c ! fst i)"
    by simp_all
  show ?case
  proof (cases "mode \<noteq> ''bare'' \<or> fgt (w ! fst i ! snd i) (Fin (1 / 10000))")
    case True
    have step: "edge_loop mode names (Some w) (Some c) (i # locs) acc
        = edge_loop mode names (Some w) (Some c) locs
            (acc @ [(names ! fst i, names ! snd i, w ! fst i ! snd i, c ! fst i ! snd i)])"
      using True i by (auto simp add: item_def cell_def local_var_def)
    show ?thesis unfolding step IH using True by simp
  next
    case False
    have step: "edge_loop mode names (Some w) (Some c) (i # locs) acc
        = edge_loop mode names (Some w) (Some c) locs acc"
      using False i by (auto simp add: item_def cell_def local_var_def)
    show ?thesis unfolding step IH using False by simp
  qed
qed


lemma elementwise_length: "length (elementwise f m) = length m"
  by (simp add: elementwise_def)

lemma elementwise_row_length: "r < length m \<Longrightarrow> length (elementwise f m ! r) = length (m ! r)"
  by (simp add: elementwise_def)

lemma elementwise_cell:
  "r < length m \<Longrightarrow> c < length (m ! r) \<Longrightarrow> elementwise f m ! r ! c = f (m ! r ! c)"
  by (simp add: elementwise_def)

lemma matrix_to_edge_list_loop:
  assumes mx: "np_max (elementwise fabs M) = Inr mx"
    and mode: "mode = ''co-occurrence''
                 \<and> fw = (\<lambda>x. fmul (np_log (fadd (fmul (Fin 2000) x) (Fin 1))) (Fin (7 / 10)))
                 \<and> fc = (\<lambda>x. np_log (fadd (fmul (Fin 2000) x) (Fin 1)))
               \<or> (mode = ''sentiment'' \<or> mode = ''bare'')
                 \<and> fw = log_weight 1000 \<and> fc = fmul (Fin 2000)"
  shows "matrix_to_edge_list M mode names
     = edge_loop mode names (Some (elementwise fw (elementwise (\<lambda>x. fdiv x mx) M)))
         (Some (elementwise fc (elementwise (\<lambda>x. fdiv x mx) M)))
         (concat (map (\<lambda>i. map (\<lambda>j. (i, j)) [0..<i]) [0..<length M])) []"
  using mode by (auto simp add: matrix_to_edge_list_def mx Let_def lower_tri_loc_eq)

lemma matrix_to_edge_list_square:
  assumes shape: "length M = K" "\<forall>row \<in> set M. length row = K"
    and names: "K \<le> length names"
    and mx: "np_max (elementwise fabs M) = Inr mx"
    and mode: "mode = ''co-occurrence''
                 \<and> fw = (\<lambda>x. fmul (np_log (fadd (fmul (Fin 2000) x) (Fin 1))) (Fin (7 / 10)))
                 \<and> fc = (\<lambda>x. np_log (fadd (fmul (Fin 2000) x) (Fin 1)))
               \<or> (mode = ''sentiment'' \<or> mode = ''bare'')
                 \<and> fw = log_weight 1000 \<and> fc = fmul (Fin 2000)"
  shows "matrix_to_edge_list M mode names
     = Inr (map (\<lambda>i. (names ! fst i, names ! snd i,
                       fw (fdiv (M ! fst i ! snd i) mx), fc (fdiv (M ! fst i ! snd i) mx)))
              (filter (\<lambda>i. mode \<noteq> ''bare''
                           \<or> fgt (fw (fdiv (M ! fst i ! snd i) mx)) (Fin (1 / 10000)))
                 (concat (map (\<lambda>i. map (\<lambda>j. (i, j)) [0..<i]) [0..<K]))))"
proof -
  let ?N = "elementwise (\<lambda>x. fdiv x mx) M"
  let ?locs = "concat (map (\<lambda>i. map (\<lambda>j. (i, j)) [0..<i]) [0..<K])"
  have rows: "length (M ! r) = K" if "r < K" for r
    using shape that by simp
  have loc: "snd i < fst i \<and> fst i < K" if "i \<in> set ?locs" for i
    using that by (simp only: lower_tri_loc_member)
  have cellf: "elementwise f ?N ! fst i ! snd i = f (fdiv (M ! fst i ! snd i) mx)"
    if "i \<in> set ?locs" for i and f :: "npfloat \<Rightarrow> npfloat"
  proof -
    from loc [OF that] have r: "fst i < K" and c: "snd i < K" by simp_all
    show ?thesis
      using r c rows [OF r] shape(1)
      by (simp add: elementwise_cell elementwise_length elementwise_row_length)
  qed
  have bounds: "\<forall>i \<in> set ?locs. fst i < length names \<and> snd i < length names
              \<and> fst i < length (elementwise fw ?N) \<and> snd i < length (elementwise fw ?N ! fst i)
              \<and> fst i < length (elementwise fc ?N) \<and> snd i < length (elementwise fc ?N ! fst i)"
  proof
    fix i assume "i \<in> set ?locs"
    from loc [OF this] have r: "fst i < K" and c: "snd i < K" by simp_all
    show "fst i < length names \<and> snd i < length names
              \<and> fst i < length (elementwise fw ?N) \<and> snd i < length (elementwise fw ?N ! fst i)
              \<and> fst i < length (elementwise fc ?N) \<and> snd i < length (elementwise fc ?N ! fst i)"
      using r c rows [OF r] shape(1) names
      by (simp add: elementwise_length elementwise_row_length)
  qed
  have "matrix_to_edge_list M mode names
     = edge_loop mode names (Some (elementwise fw ?N)) (Some (elementwise fc ?N)) ?locs []"
    using matrix_to_edge_list_loop [OF mx mode] shape(1) by simp
  also have "\<dots> = Inr ([] @ map (\<lambda>i. (names ! fst i, names ! snd i,
                        elementwise fw ?N ! fst i ! snd i, elementwise fc ?N ! fst i ! snd i))
              (filter (\<lambda>i. mode \<noteq> ''bare''
                           \<or> fgt (elementwise fw ?N ! fst i ! snd i) (Fin (1 / 10000))) ?locs))"
    by (rule edge_loop_in_range [OF bounds])
  also have "filter (\<lambda>i. mode \<noteq> ''bare''
                           \<or> fgt (elementwise fw ?N ! fst i ! snd i) (Fin (1 / 10000))) ?locs
      = filter (\<lambda>i. mode \<noteq> ''bare''
                           \<or> fgt (fw (fdiv (M ! fst i ! snd i) mx)) (Fin (1 / 10000))) ?locs"
    by (rule filter_cong) (simp_all only: cellf)
  also have "map (\<lambda>i. (names ! fst i, names ! snd i,
                        elementwise fw ?N ! fst i ! snd i, elementwise fc ?N ! fst i ! snd i))
              (filter (\<lambda>i. mode \<noteq> ''bare''
                           \<or> fgt (fw (fdiv (M ! fst i ! snd i) mx)) (Fin (1 / 10000))) ?locs)
      = map (\<lambda>i. (names ! fst i, names ! snd i,
                       fw (fdiv (M ! fst i ! snd i) mx), fc (fdiv (M ! fst i ! snd i) mx)))
              (filter (\<lambda>i. mode \<noteq> ''bare''
                           \<or> fgt (fw (fdiv (M ! fst i ! snd i) mx)) (Fin (1 / 10000))) ?locs)"
    by (rule map_cong) (simp_all add: cellf)
  finally show ?thesis by simp
qed

lemma fold_fmax_Fin: "fold (\<lambda>y acc. fmax acc y) (map Fin xs) (Fin x) = Fin (fold max xs x)"
proof (induction xs arbitrary: x)
  case Nil
  show ?case by simp
next
  case (Cons y ys)
  have "fmax (Fin x) (Fin y) = Fin (max y x)" by (simp add: max_def)
  then show ?case by (simp add: Cons.IH)
qed

lemma np_max_finite:
  assumes "concat R \<noteq> []"
  shows "np_max (elementwise fabs (elementwise Fin R)) = Inr (Fin (Max (set (map abs (concat R)))))"
proof -
  have c: "concat (elementwise fabs (elementwise Fin R)) = map Fin (map abs (concat R))"
    by (simp add: elementwise_def map_concat comp_def)
  from assms obtain x xs where xs: "map abs (concat R) = x # xs"
    by (cases "map abs (concat R)") auto
  show ?thesis
    unfolding np_max_def c xs
    by (simp add: fold_fmax_Fin Max.set_eq_fold del: set_simps)
qed

lemma lower_map_filter_cong:
  assumes "\<And>r c. c < r \<Longrightarrow> r < K \<Longrightarrow> f (r, c) = g r c \<and> P (r, c) = Q r c"
  shows "map f (filter P (concat (map (\<lambda>i. map (\<lambda>j. (i, j)) [0..<i]) [0..<K])))
       = map (\<lambda>(r, c). g r c) (filter (\<lambda>(r, c). Q r c) [(r, c). r \<leftarrow> [0..<K], c \<leftarrow> [0..<r]])"
proof -
  let ?locs = "concat (map (\<lambda>i. map (\<lambda>j. (i, j)) [0..<i]) [0..<K])"
  have loc: "c < r \<and> r < K" if "(r, c) \<in> set ?locs" for r c
    using that lower_tri_loc_member [of "(r, c)" K] by simp
  have "filter P ?locs = filter (\<lambda>(r, c). Q r c) ?locs"
  proof (rule filter_cong [OF refl])
    fix i assume i: "i \<in> set ?locs"
    obtain r c where rc: "i = (r, c)" by (cases i)
    from i loc [of r c] assms [of c r] have "P (r, c) = Q r c" unfolding rc by blast
    then show "P i = (case i of (r, c) \<Rightarrow> Q r c)" unfolding rc by simp
  qed
  moreover have "map f (filter (\<lambda>(r, c). Q r c) ?locs)
      = map (\<lambda>(r, c). g r c) (filter (\<lambda>(r, c). Q r c) ?locs)"
  proof (rule map_cong [OF refl])
    fix i assume "i \<in> set (filter (\<lambda>(r, c). Q r c) ?locs)"
    then have i: "i \<in> set ?locs" by simp
    obtain r c where rc: "i = (r, c)" by (cases i)
    from i loc [of r c] assms [of c r] have "f (r, c) = g r c" unfolding rc by blast
    then show "f i = (case i of (r, c) \<Rightarrow> g r c)" unfolding rc by simp
  qed
  ultimately show ?thesis by (simp only:)
qed


lemma square_nonempty:
  assumes "length R = K" "\<forall>row \<in> set R. length row = K" "0 < K"
  shows "concat R \<noteq> []"
proof -
  from assms obtain row rest where R: "R = row # rest" by (cases R) auto
  with assms have "length row = K" by simp
  with assms(3) R show ?thesis by auto
qed






text \<open>
  Claim C5 says that an all-zero matrix makes the projector fail. It does not: numpy
  divides zero by zero to not-a-number with a warning only, and the loop runs as usual.
\<close>

theorem matrix_to_edge_list_all_zero_counterexample:
  "matrix_to_edge_list [[Fin 0, Fin 0], [Fin 0, Fin 0]] ''sentiment'' [''alice'', ''bob'']
   = Inr [(''bob'', ''alice'', NaN, NaN)]"
  by (simp add: matrix_to_edge_list_def np_max_def elementwise_def lower_tri_loc_eq
        item_def cell_def local_var_def log_weight_def upt_rec)

text \<open>
  Claim C5, amended. For an all-zero square matrix with at least one row the projector
  raises nothing: in co-occurrence and sentiment mode it returns one edge for every cell
  strictly below the diagonal, with weight and color not-a-number; in bare mode it
  returns the empty list, because not-a-number does not exceed the threshold.
\<close>

theorem matrix_to_edge_list_all_zero:
  assumes "0 < K" and "K \<le> length names"
  shows "(mode = ''co-occurrence'' \<or> mode = ''sentiment'' \<longrightarrow>
            matrix_to_edge_list (replicate K (replicate K (Fin 0))) mode names
            = Inr (map (\<lambda>(r, c). (names ! r, names ! c, NaN, NaN))
                     [(r, c). r \<leftarrow> [0..<K], c \<leftarrow> [0..<r]]))
       \<and> (mode = ''bare'' \<longrightarrow>
            matrix_to_edge_list (replicate K (replicate K (Fin 0))) mode names = Inr [])"
proof -
  let ?M = "replicate K (replicate K (Fin 0))"
  let ?locs = "concat (map (\<lambda>i. map (\<lambda>j. (i, j)) [0..<i]) [0..<K])"
  have lenM: "length ?M = K" by simp
  have rowsM: "\<forall>row \<in> set ?M. length row = K" by simp
  have M: "?M = elementwise Fin (replicate K (replicate K 0))"
    by (simp add: elementwise_def)
  have ne: "concat (replicate K (replicate K (0::real))) \<noteq> []"
    by (rule square_nonempty [of _ K]) (simp_all add: assms(1))
  have "set (map abs (concat (replicate K (replicate K (0::real))))) = {0}"
    using assms(1) by auto
  then have mx: "np_max (elementwise fabs ?M) = Inr (Fin 0)"
    unfolding M using np_max_finite [OF ne] by simp
  have cell: "?M ! r ! c = Fin 0" if "c < r" "r < K" for r c
    using that by simp
  have all: "matrix_to_edge_list ?M mode names
       = Inr (map (\<lambda>(r, c). (names ! r, names ! c, NaN, NaN))
               (filter (\<lambda>(r, c). mode \<noteq> ''bare'') ?locs))"
    if mode: "mode = ''co-occurrence''
                 \<and> fw = (\<lambda>x. fmul (np_log (fadd (fmul (Fin 2000) x) (Fin 1))) (Fin (7 / 10)))
                 \<and> fc = (\<lambda>x. np_log (fadd (fmul (Fin 2000) x) (Fin 1)))
               \<or> (mode = ''sentiment'' \<or> mode = ''bare'')
                 \<and> fw = log_weight 1000 \<and> fc = fmul (Fin 2000)" for fw fc
    unfolding matrix_to_edge_list_square [OF lenM rowsM assms(2) mx mode]
    by (rule arg_cong [where f = Inr], rule lower_map_filter_cong)
      (use mode in \<open>auto simp add: cell log_weight_def\<close>)
  show ?thesis
  proof (intro conjI impI)
    assume "mode = ''co-occurrence'' \<or> mode = ''sentiment''"
    then show "matrix_to_edge_list ?M mode names
            = Inr (map (\<lambda>(r, c). (names ! r, names ! c, NaN, NaN)) ?locs)"
    proof
      assume m: "mode = ''co-occurrence''"
      show ?thesis
        unfolding all [OF disjI1, OF conjI, OF m conjI, OF refl refl] by (simp add: m)
    next
      assume m: "mode = ''sentiment''"
      then have m': "mode = ''sentiment'' \<or> mode = ''bare''" by simp
      show ?thesis
        unfolding all [OF disjI2, OF conjI, OF m' conjI, OF refl refl] by (simp add: m)
    qed
  next
    assume m: "mode = ''bare''"
    then have m': "mode = ''sentiment'' \<or> mode = ''bare''" by simp
    show "matrix_to_edge_list ?M mode names = Inr []"
      unfolding all [OF disjI2, OF conjI, OF m' conjI, OF refl refl] by (simp add: m)
  qed
qed

theorem matrix_to_edge_list_all_zero_witness:
  "matrix_to_edge_list (replicate 2 (replicate 2 (Fin 0))) ''co-occurrence'' [''alice'', ''bob'']
     = Inr [(''bob'', ''alice'', NaN, NaN)]
   \<and> matrix_to_edge_list (replicate 2 (replicate 2 (Fin 0))) ''bare'' [''alice'', ''bob''] = Inr []"
  using matrix_to_edge_list_all_zero [of 2 "[''alice'', ''bob'']" "''co-occurrence''"]
    matrix_to_edge_list_all_zero [of 2 "[''alice'', ''bob'']" "''bare''"]
  by (simp add: upt_rec)

text \<open>
  Claim C10. Whatever the matrix and the mode, when the projector returns an edge list
  for a vocabulary without repeated names, every edge joins the names at two positions
  \<open>j < i\<close> of the vocabulary, so its two names differ, and no unordered pair of names
  occurs twice in the list.
\<close>

theorem matrix_to_edge_list_distinct_pairs:
  assumes "matrix_to_edge_list M mode names = Inr es" and "distinct names"
  shows "(\<forall>(a, b, w, c) \<in> set es.
            \<exists>i j. j < i \<and> i < length names \<and> a = names ! i \<and> b = names ! j \<and> a \<noteq> b)
       \<and> distinct (map (\<lambda>(a, b, w, c). {a, b}) es)"
proof -
  let ?locs = "concat (map (\<lambda>i. map (\<lambda>j. (i, j)) [0..<i]) [0..<length M])"
  from assms(1) have "\<exists>W Cl. edge_loop mode names W Cl ?locs [] = Inr es"
    by (auto simp add: matrix_to_edge_list_def Let_def lower_tri_loc_eq
          split: sum.splits prod.splits)
  then obtain W Cl where loop: "edge_loop mode names W Cl ?locs [] = Inr es" by blast
  let ?keep = "\<lambda>i. mode \<noteq> ''bare'' \<or> fgt (the W ! fst i ! snd i) (Fin (1 / 10000))"
  let ?mk = "\<lambda>i. (names ! fst i, names ! snd i, the W ! fst i ! snd i, the Cl ! fst i ! snd i)"
  let ?ks = "filter ?keep ?locs"
  from edge_loop_Inr [OF loop]
  have es: "es = map ?mk ?ks"
    and bound: "\<forall>i \<in> set ?ks. fst i < length names \<and> snd i < length names"
    by simp_all
  have low: "snd i < fst i" if "i \<in> set ?ks" for i
  proof -
    from that have "i \<in> set ?locs" by simp
    then show ?thesis by (simp only: lower_tri_loc_member)
  qed
  have neq: "names ! fst i \<noteq> names ! snd i" if "i \<in> set ?ks" for i
  proof -
    from bound that have "fst i < length names" "snd i < length names" by blast+
    with assms(2) have "(names ! fst i = names ! snd i) = (fst i = snd i)"
      by (simp only: nth_eq_iff_index_eq)
    with low [OF that] show ?thesis by simp
  qed
  have first: "\<forall>(a, b, w, c) \<in> set es.
            \<exists>i j. j < i \<and> i < length names \<and> a = names ! i \<and> b = names ! j \<and> a \<noteq> b"
  proof (clarify)
    fix a b w c assume "(a, b, w, c) \<in> set es"
    then obtain i where i: "i \<in> set ?ks" and e: "(a, b, w, c) = ?mk i"
      unfolding es by auto
    from e have a: "a = names ! fst i" and b: "b = names ! snd i" by simp_all
    from low [OF i] bound i neq [OF i] a b
    show "\<exists>i j. j < i \<and> i < length names \<and> a = names ! i \<and> b = names ! j \<and> a \<noteq> b"
      by blast
  qed
  have inj: "inj_on (\<lambda>i. {names ! fst i, names ! snd i}) (set ?ks)"
  proof (rule inj_onI)
    fix i k assume i: "i \<in> set ?ks" and k: "k \<in> set ?ks"
      and eq: "{names ! fst i, names ! snd i} = {names ! fst k, names ! snd k}"
    from bound i k have bi: "fst i < length names" "snd i < length names"
      and bk: "fst k < length names" "snd k < length names" by blast+
    from eq have "names ! fst i = names ! fst k \<and> names ! snd i = names ! snd k
        \<or> names ! fst i = names ! snd k \<and> names ! snd i = names ! fst k"
      by (simp add: doubleton_eq_iff)
    then have "fst i = fst k \<and> snd i = snd k \<or> fst i = snd k \<and> snd i = fst k"
      using bi bk assms(2) by (simp only: nth_eq_iff_index_eq)
    with low [OF i] low [OF k] show "i = k" by (auto intro: prod_eqI)
  qed
  have "distinct ?ks" by (rule distinct_filter) (rule lower_tri_loc_distinct)
  with inj have "distinct (map (\<lambda>i. {names ! fst i, names ! snd i}) ?ks)"
    by (simp add: distinct_map)
  moreover have "map (\<lambda>(a, b, w, c). {a, b}) es = map (\<lambda>i. {names ! fst i, names ! snd i}) ?ks"
    unfolding es by simp
  ultimately have "distinct (map (\<lambda>(a, b, w, c). {a, b}) es)" by simp
  with first show ?thesis by blast
qed

theorem matrix_to_edge_list_distinct_pairs_witness:
  "matrix_to_edge_list [[Fin 0, Fin 0], [Fin 1, Fin 0]] ''sentiment'' [''alice'', ''bob'']
     = Inr [(''bob'', ''alice'', Fin (ln 1001 * (7 / 10)), Fin 2000)]
   \<and> distinct [''alice'', ''bob'']
   \<and> (\<exists>i j. j < i \<and> i < length [''alice'', ''bob'']
          \<and> ''bob'' = [''alice'', ''bob''] ! i \<and> ''alice'' = [''alice'', ''bob''] ! j
          \<and> ''bob'' \<noteq> ''alice'')
   \<and> distinct (map (\<lambda>(a, b, w, c). {a, b})
                 [(''bob'', ''alice'', Fin (ln 1001 * (7 / 10)), Fin (2000::real))])"
proof -
  have h1: "matrix_to_edge_list [[Fin 0, Fin 0], [Fin 1, Fin 0]] ''sentiment'' [''alice'', ''bob'']
     = Inr [(''bob'', ''alice'', Fin (ln 1001 * (7 / 10)), Fin 2000)]"
    by (simp add: matrix_to_edge_list_def np_max_def elementwise_def lower_tri_loc_eq
        item_def cell_def local_var_def log_weight_def upt_rec)
  have h2: "distinct [''alice'', ''bob'']" by simp
  from matrix_to_edge_list_distinct_pairs [OF h1 h2]
  have "(\<exists>i j. j < i \<and> i < length [''alice'', ''bob'']
          \<and> ''bob'' = [''alice'', ''bob''] ! i \<and> ''alice'' = [''alice'', ''bob''] ! j
          \<and> ''bob'' \<noteq> ''alice'')
      \<and> distinct (map (\<lambda>(a, b, w, c). {a, b})
                 [(''bob'', ''alice'', Fin (ln 1001 * (7 / 10)), Fin (2000::real))])"
    by simp
  with h1 h2 show ?thesis by blast
qed

end
